theory Spec2Isabelle
  imports Complex_Main
begin

section \<open>Range algebra (apps/api/src/decision/range.ts)\<close>

text \<open>
  A JavaScript \<^verbatim>\<open>number\<close> is modelled as an exact \<^typ>\<open>real\<close>: the range algebra only
  compares, adds, subtracts and takes minima and maxima of times in seconds. Rounding of
  IEEE doubles, \<^verbatim>\<open>NaN\<close> and the infinities are outside the model.
\<close>

record TimeRange =
  startSec :: real
  endSec :: real

definition normalizeRange :: "TimeRange \<Rightarrow> TimeRange" where
  "normalizeRange r =
     (if startSec r \<le> endSec r then r
      else \<lparr>startSec = endSec r, endSec = startSec r\<rparr>)"

definition rangeLength :: "'a TimeRange_scheme \<Rightarrow> real" where
  "rangeLength r = max 0 (endSec r - startSec r)"

definition overlaps :: "'a TimeRange_scheme \<Rightarrow> 'b TimeRange_scheme \<Rightarrow> bool" where
  "overlaps a b \<longleftrightarrow> startSec a < endSec b \<and> startSec b < endSec a"

definition intersectionLength :: "'a TimeRange_scheme \<Rightarrow> 'b TimeRange_scheme \<Rightarrow> real" where
  "intersectionLength a b =
     (if \<not> overlaps a b then 0
      else min (endSec a) (endSec b) - max (startSec a) (startSec b))"

definition expandRange :: "'a TimeRange_scheme \<Rightarrow> real \<Rightarrow> real \<Rightarrow> TimeRange" where
  "expandRange r paddingSec durationSec =
     \<lparr>startSec = max 0 (startSec r - paddingSec),
      endSec = min durationSec (endSec r + paddingSec)\<rparr>"

text \<open>
  The loop of \<^verbatim>\<open>mergeRanges\<close>: \<open>merged\<close> is the output array built so far, \<open>current\<close> the
  range being grown, and the list the part of \<^verbatim>\<open>sorted\<close> from index \<^verbatim>\<open>idx\<close> on. The
  final \<^verbatim>\<open>merged.push(current)\<close> is the first equation.
\<close>

fun mergeLoop :: "TimeRange list \<Rightarrow> TimeRange \<Rightarrow> TimeRange list \<Rightarrow> TimeRange list" where
  "mergeLoop merged current [] = merged @ [current]"
| "mergeLoop merged current (candidate # rest) =
     (if startSec candidate \<le> endSec current
      then mergeLoop merged
             \<lparr>startSec = startSec current,
              endSec = max (endSec current) (endSec candidate)\<rparr> rest
      else mergeLoop (merged @ [current]) candidate rest)"

text \<open>
  \<^verbatim>\<open>Array.prototype.sort\<close> is stable and the comparator orders by \<^verbatim>\<open>startSec\<close>;
  \<^const>\<open>sort_key\<close> is the stable insertion sort on that key.
\<close>

definition mergeRanges :: "TimeRange list \<Rightarrow> TimeRange list" where
  "mergeRanges ranges =
     (if ranges = [] then []
      else
        (case filter (\<lambda>r. endSec r > startSec r)
                (sort_key startSec (map normalizeRange ranges)) of
           [] \<Rightarrow> []
         | current # rest \<Rightarrow> mergeLoop [] current rest))"

definition totalOverlapLength :: "'a TimeRange_scheme \<Rightarrow> TimeRange list \<Rightarrow> real" where
  "totalOverlapLength r protectedRanges =
     foldl (\<lambda>sum protectedRange. sum + intersectionLength r protectedRange) 0 protectedRanges"


section \<open>Shared data model (packages/shared/src/index.ts, apps/api/src/errors.ts)\<close>

datatype TrimStrategy = Outro | Intro | Intro_outro | Fallback_low_density

datatype ErrorCode =
    AUDIO_LONGER_THAN_VIDEO | NO_SYNC_SAFE_CUT | INVALID_OVERRIDE_RANGE | DEPENDENCY_MISSING
  | ANALYSIS_FAILED | RENDER_FAILED | JOB_NOT_FOUND | MODEL_MISSING

text \<open>
  What a function throws: an \<^verbatim>\<open>AppError\<close> with its code, or a plain JavaScript
  \<^verbatim>\<open>Error\<close> (raised by the duration probe and by the repository). Messages are not modelled.
\<close>

datatype error = AppError ErrorCode | JsError

record SpeechRegion = TimeRange +
  speech_text :: string
  speech_confidence :: "real option"

record LowInfoRegion = TimeRange +
  score :: real

record AnalysisResult =
  speechRegions :: "SpeechRegion list"
  silenceRegions :: "TimeRange list"
  sceneCutsSec :: "real list"
  lowInfoRegions :: "LowInfoRegion list"
  warnings :: "string list"

text \<open>
  The \<^verbatim>\<open>reasoning\<close> field of a decision and of a candidate (display strings, some built
  with \<^verbatim>\<open>toFixed\<close>) is left out of the model; every other field is kept.
\<close>

record TrimDecision =
  keepRange :: TimeRange
  trimNeededSec :: real
  strategy :: TrimStrategy
  confidence :: real
  protectedRanges :: "TimeRange list"

section \<open>Decision engine (apps/api/src/decision/engine.ts)\<close>

definition SPEECH_PADDING_SEC :: real where
  "SPEECH_PADDING_SEC = 0.35"

definition OVERLAP_TOLERANCE_SEC :: real where
  "OVERLAP_TOLERANCE_SEC = 0.02"

record DecisionInput =
  videoDurationSec :: real
  targetDurationSec :: real
  analysis :: AnalysisResult
  hasReplacementAudio :: bool

record Candidate =
  cand_strategy :: TrimStrategy
  cand_keepRange :: TimeRange
  cand_trimRanges :: "TimeRange list"

definition overlapWithRanges :: "TimeRange list \<Rightarrow> TimeRange list \<Rightarrow> real" where
  "overlapWithRanges trimRanges ranges =
     foldl (\<lambda>sum trimRange. sum + totalOverlapLength trimRange ranges) 0 trimRanges"

definition silenceCoverage :: "TimeRange list \<Rightarrow> TimeRange list \<Rightarrow> real" where
  "silenceCoverage trimRanges silenceRanges =
     (let trimLength = foldl (\<lambda>sum r. sum + rangeLength r) 0 trimRanges in
      if trimLength = 0 then 1
      else
        let silenceOverlap =
              foldl (\<lambda>sum trimRange.
                       sum + foldl (\<lambda>acc silenceRange.
                                      acc + intersectionLength trimRange silenceRange)
                               0 silenceRanges)
                0 trimRanges
        in min 1 (silenceOverlap / trimLength))"

definition hasInvalidRange :: "TimeRange list \<Rightarrow> bool" where
  "hasInvalidRange ranges = list_ex (\<lambda>r. endSec r \<le> startSec r) ranges"

definition buildCandidates :: "real \<Rightarrow> real \<Rightarrow> bool \<Rightarrow> Candidate list" where
  "buildCandidates videoDuration targetDuration hasAudio =
     (let trimNeeded = max 0 (videoDuration - targetDuration) in
      if trimNeeded \<le> 0 then
        [\<lparr>cand_strategy = Outro,
          cand_keepRange = \<lparr>startSec = 0, endSec = videoDuration\<rparr>,
          cand_trimRanges = []\<rparr>]
      else
        let outroTrim = \<lparr>startSec = max 0 targetDuration, endSec = videoDuration\<rparr>;
            candidates =
              [\<lparr>cand_strategy = Outro,
                cand_keepRange = \<lparr>startSec = 0, endSec = targetDuration\<rparr>,
                cand_trimRanges = [outroTrim]\<rparr>];
            candidates =
              (if \<not> hasAudio then
                 let introTrim = \<lparr>startSec = 0, endSec = trimNeeded\<rparr>;
                     introShare = trimNeeded / 2;
                     outroShare = trimNeeded - introShare
                 in candidates @
                    [\<lparr>cand_strategy = Intro,
                      cand_keepRange = \<lparr>startSec = trimNeeded, endSec = videoDuration\<rparr>,
                      cand_trimRanges = [introTrim]\<rparr>,
                     \<lparr>cand_strategy = Intro_outro,
                      cand_keepRange =
                        \<lparr>startSec = introShare, endSec = videoDuration - outroShare\<rparr>,
                      cand_trimRanges =
                        [\<lparr>startSec = 0, endSec = introShare\<rparr>,
                         \<lparr>startSec = videoDuration - outroShare, endSec = videoDuration\<rparr>]\<rparr>]
               else candidates)
        in filter (\<lambda>candidate. \<not> hasInvalidRange (cand_trimRanges candidate)) candidates)"

fun strategyBaseConfidence :: "TrimStrategy \<Rightarrow> real" where
  "strategyBaseConfidence Outro = 0.88"
| "strategyBaseConfidence Intro = 0.78"
| "strategyBaseConfidence Intro_outro = 0.72"
| "strategyBaseConfidence Fallback_low_density = 0.62"

definition scoreFor :: "AnalysisResult \<Rightarrow> TimeRange \<Rightarrow> real" where
  "scoreFor a r =
     (let lowInfoBonus =
            foldl (\<lambda>sum lowInfo.
                     if \<not> overlaps r lowInfo then sum
                     else sum + intersectionLength r lowInfo * score lowInfo)
              0 (lowInfoRegions a)
      in - lowInfoBonus)"

definition fallbackCandidate :: "real \<Rightarrow> real \<Rightarrow> AnalysisResult \<Rightarrow> Candidate" where
  "fallbackCandidate videoDuration targetDuration a =
     (let trimNeeded = max 0 (videoDuration - targetDuration);
          introTrim = \<lparr>startSec = 0, endSec = trimNeeded\<rparr>;
          outroTrim = \<lparr>startSec = targetDuration, endSec = videoDuration\<rparr>;
          introScore = scoreFor a introTrim;
          outroScore = scoreFor a outroTrim;
          pickOutro = (outroScore \<le> introScore)
      in \<lparr>cand_strategy = Fallback_low_density,
          cand_keepRange =
            (if pickOutro then \<lparr>startSec = 0, endSec = targetDuration\<rparr>
             else \<lparr>startSec = trimNeeded, endSec = videoDuration\<rparr>),
          cand_trimRanges = [if pickOutro then outroTrim else introTrim]\<rparr>)"

definition withinDuration :: "TimeRange \<Rightarrow> real \<Rightarrow> bool" where
  "withinDuration r durationSec \<longleftrightarrow>
     startSec r \<ge> 0 \<and> endSec r \<le> durationSec \<and> endSec r > startSec r"

text \<open>
  The \<^verbatim>\<open>for (const candidate of candidates)\<close> loop of \<^verbatim>\<open>computeTrimDecision\<close>: each
  \<^verbatim>\<open>continue\<close> is a recursive call on the remaining candidates, the \<^verbatim>\<open>return\<close> is
  \<open>Some\<close>, and falling out of the loop is \<open>None\<close>.
\<close>

fun candidateLoop :: "DecisionInput \<Rightarrow> TimeRange list \<Rightarrow> Candidate list \<Rightarrow> TrimDecision option"
  where
  "candidateLoop input protected [] = None"
| "candidateLoop input protected (candidate # rest) =
     (let speechOverlap = overlapWithRanges (cand_trimRanges candidate) protected in
      if speechOverlap > OVERLAP_TOLERANCE_SEC then candidateLoop input protected rest
      else
        let candidateTrimLength =
              foldl (\<lambda>sum trimRange. sum + rangeLength trimRange) 0 (cand_trimRanges candidate);
            silenceScore =
              silenceCoverage (cand_trimRanges candidate) (silenceRegions (analysis input));
            overlapRatio =
              (if candidateTrimLength > 0 then speechOverlap / candidateTrimLength else 0);
            confidence =
              max 0 (min 1 (strategyBaseConfidence (cand_strategy candidate)
                            + silenceScore * 0.1 - overlapRatio * 0.5))
        in if \<not> withinDuration (cand_keepRange candidate) (videoDurationSec input)
           then candidateLoop input protected rest
           else Some \<lparr>keepRange = cand_keepRange candidate,
                      trimNeededSec =
                        max 0 (videoDurationSec input - targetDurationSec input),
                      strategy = cand_strategy candidate,
                      confidence = confidence,
                      protectedRanges = protected\<rparr>)"

definition computeTrimDecision :: "DecisionInput \<Rightarrow> error + TrimDecision" where
  "computeTrimDecision input =
     (let trimNeeded = videoDurationSec input - targetDurationSec input in
      if trimNeeded < - 0.01 then Inl (AppError AUDIO_LONGER_THAN_VIDEO)
      else
        let protected =
              mergeRanges
                (map (\<lambda>region. expandRange region SPEECH_PADDING_SEC (videoDurationSec input))
                   (speechRegions (analysis input)));
            candidates =
              buildCandidates (videoDurationSec input) (targetDurationSec input)
                (hasReplacementAudio input)
        in case candidateLoop input protected candidates of
             Some decision \<Rightarrow> Inr decision
           | None \<Rightarrow>
               if hasReplacementAudio input then Inl (AppError NO_SYNC_SAFE_CUT)
               else
                 let fallback =
                       fallbackCandidate (videoDurationSec input) (targetDurationSec input)
                         (analysis input);
                     speechOverlap = overlapWithRanges (cand_trimRanges fallback) protected;
                     fallbackConfidence = max 0.4 (0.62 - speechOverlap / max 1 trimNeeded)
                 in Inr \<lparr>keepRange = cand_keepRange fallback,
                         trimNeededSec = max 0 trimNeeded,
                         strategy = cand_strategy fallback,
                         confidence = min 1 fallbackConfidence,
                         protectedRanges = protected\<rparr>)"


section \<open>Job records and the override validator (apps/api/src/override.ts)\<close>

datatype JobStatus = Queued | Analyzing | Awaiting_review | Rendering | Completed | Failed


text \<open>
  JavaScript truthiness of an optional string, as in \<^verbatim>\<open>job.replacementAudioPath && ...\<close>:
  \<^verbatim>\<open>undefined\<close> and the empty string are falsy.
\<close>

definition truthy :: "string option \<Rightarrow> bool" where
  "truthy p = (case p of None \<Rightarrow> False | Some v \<Rightarrow> v \<noteq> [])"


section \<open>Render orchestrator (apps/api/src/render.ts)\<close>

record RenderOptions =
  opt_videoPath :: string
  opt_replacementAudioPath :: "string option"
  opt_keepRange :: TimeRange
  opt_videoDurationSec :: real
  opt_targetDurationSec :: real
  opt_outputPath :: string

text \<open>
  The three argument vectors \<^verbatim>\<open>renderVideo\<close> builds for the encoder, with the values they
  carry: input video, replacement audio, \<^verbatim>\<open>-ss\<close>, \<^verbatim>\<open>-to\<close> and the output path.
\<close>

datatype EncoderArgs =
    StreamCopy string real string
  | StreamCopyWithReplacement string string real string
  | ReEncode string "string option" real real string

text \<open>
  The outside world of one \<^verbatim>\<open>renderVideo\<close> call: what \<^verbatim>\<open>runProcess\<close> on the encoder
  gives for an argument vector (a rejected promise, or the exit code), whether a file
  exists once the encoder has run, and what \<^verbatim>\<open>probeDurationSeconds\<close> gives for a path
  (it throws a plain \<^verbatim>\<open>Error\<close>, or returns a duration). Progress and log callbacks are
  not modelled.
\<close>

record RenderWorld =
  runEncoder :: "EncoderArgs \<Rightarrow> error + int"
  existsSync :: "string \<Rightarrow> bool"
  probeDurationSeconds :: "string \<Rightarrow> error + real"

record RenderResult =
  outputPath :: string
  durationSec :: real

definition shouldUseStreamCopy :: "TimeRange \<Rightarrow> string option \<Rightarrow> bool" where
  "shouldUseStreamCopy keep replacementAudioPath \<longleftrightarrow>
     startSec keep \<le> 0.001 \<and> endSec keep > 0 \<and> \<not> truthy replacementAudioPath"

definition shouldUseStreamCopyWithReplacement :: "TimeRange \<Rightarrow> string option \<Rightarrow> bool" where
  "shouldUseStreamCopyWithReplacement keep replacementAudioPath \<longleftrightarrow>
     startSec keep \<le> 0.001 \<and> truthy replacementAudioPath"

definition encoderArgs :: "RenderOptions \<Rightarrow> EncoderArgs" where
  "encoderArgs options =
     (let keep = opt_keepRange options;
          useCopy = shouldUseStreamCopy keep (opt_replacementAudioPath options);
          useCopyWithReplacement =
            shouldUseStreamCopyWithReplacement keep (opt_replacementAudioPath options)
      in if useCopy
         then StreamCopy (opt_videoPath options) (endSec keep) (opt_outputPath options)
         else if useCopyWithReplacement
         then StreamCopyWithReplacement (opt_videoPath options)
                (the (opt_replacementAudioPath options)) (endSec keep) (opt_outputPath options)
         else ReEncode (opt_videoPath options)
                (if truthy (opt_replacementAudioPath options)
                 then opt_replacementAudioPath options else None)
                (startSec keep) (endSec keep) (opt_outputPath options))"

text \<open>
  \<^verbatim>\<open>renderVideo\<close> returns what the promise settles to, together with the list of encoder
  runs it started (empty when it throws before \<^verbatim>\<open>runProcess\<close>).
\<close>

definition renderVideo ::
  "RenderWorld \<Rightarrow> RenderOptions \<Rightarrow> (error + RenderResult) \<times> EncoderArgs list" where
  "renderVideo world options =
     (let keep = opt_keepRange options in
      if startSec keep < 0 \<or> endSec keep > opt_videoDurationSec options
      then (Inl (AppError INVALID_OVERRIDE_RANGE), [])
      else if endSec keep \<le> startSec keep
      then (Inl (AppError INVALID_OVERRIDE_RANGE), [])
      else if truthy (opt_replacementAudioPath options) \<and> startSec keep > 0.001
      then (Inl (AppError NO_SYNC_SAFE_CUT), [])
      else
        let args = encoderArgs options;
            expectedDuration = opt_targetDurationSec options
        in case runEncoder world args of
             Inl e \<Rightarrow> (Inl e, [args])
           | Inr exitCode \<Rightarrow>
               if exitCode \<noteq> 0 then (Inl (AppError RENDER_FAILED), [args])
               else if \<not> existsSync world (opt_outputPath options)
               then (Inl (AppError RENDER_FAILED), [args])
               else
                 (case probeDurationSeconds world (opt_outputPath options) of
                    Inl e \<Rightarrow> (Inl e, [args])
                  | Inr renderedDurationSec \<Rightarrow>
                      if \<bar>renderedDurationSec - expectedDuration\<bar> > 0.25
                      then (Inl (AppError RENDER_FAILED), [args])
                      else (Inr \<lparr>outputPath = opt_outputPath options,
                                 durationSec = renderedDurationSec\<rparr>, [args])))"


section \<open>Job queue (apps/api/src/queue.ts)\<close>





section \<open>Job service: creating a job (apps/api/src/job-service.ts, db.ts, events.ts)\<close>

record UploadInput =
  videoOriginalName :: string
  videoBuffer :: string
  replacementAudioOriginalName :: "string option"
  replacementAudioBuffer :: "string option"




text \<open>
  The outside world of one \<^verbatim>\<open>createJob\<close> call: the identifier \<^verbatim>\<open>uuidv4\<close> returns, the
  clock, the uploads directory, the extension \<^verbatim>\<open>sanitizeExt\<close> picks for a file name and a
  fallback, and the duration probe. Directory creation and the writing of the uploaded
  buffers are not modelled. \<^verbatim>\<open>path.join\<close> is modelled as joining with a slash.
\<close>

record UploadWorld =
  uuidv4 :: string
  nowIso :: string
  uploadsRoot :: string
  sanitizeExt :: "string option \<Rightarrow> string \<Rightarrow> string"
  probeDuration :: "string \<Rightarrow> error + real"

definition pathJoin :: "string \<Rightarrow> string \<Rightarrow> string" where
  "pathJoin dir name = dir @ ''/'' @ name"






definition uploadDir :: "UploadWorld \<Rightarrow> string" where
  "uploadDir world = pathJoin (uploadsRoot world) (uuidv4 world)"


definition replacementAudioPath :: "UploadWorld \<Rightarrow> UploadInput \<Rightarrow> string option" where
  "replacementAudioPath world input =
     (if replacementAudioBuffer input \<noteq> None \<and> truthy (replacementAudioOriginalName input)
      then Some (pathJoin (uploadDir world)
                   (''replacement-audio''
                      @ sanitizeExt world (replacementAudioOriginalName input) ''.wav''))
      else None)"



section \<open>Notions the properties are stated with\<close>

text \<open>
  A candidate is acceptable when the loop of \<^verbatim>\<open>computeTrimDecision\<close> would return it: its
  trim ranges overlap the protected ranges by at most the tolerance and its keep range
  lies within the video.
\<close>

definition acceptable :: "TimeRange list \<Rightarrow> real \<Rightarrow> Candidate \<Rightarrow> bool" where
  "acceptable protected videoDuration candidate \<longleftrightarrow>
     overlapWithRanges (cand_trimRanges candidate) protected \<le> OVERLAP_TOLERANCE_SEC
     \<and> withinDuration (cand_keepRange candidate) videoDuration"

text \<open>
  The aggregate low-information contact of an edge trim: the sum, over the low-information
  regions, of the length of the intersection with the trim times the region's score.
\<close>

definition lowInfoContact :: "AnalysisResult \<Rightarrow> TimeRange \<Rightarrow> real" where
  "lowInfoContact a trim =
     (\<Sum>lowInfo\<leftarrow>lowInfoRegions a. intersectionLength trim lowInfo * score lowInfo)"

definition containsRange :: "TimeRange \<Rightarrow> TimeRange \<Rightarrow> bool" where
  "containsRange outer inner \<longleftrightarrow>
     startSec outer \<le> startSec inner \<and> endSec inner \<le> endSec outer"

text \<open>The protected ranges of an input: padded, clamped and merged speech regions.\<close>

definition protectedOf :: "DecisionInput \<Rightarrow> TimeRange list" where
  "protectedOf input =
     mergeRanges
       (map (\<lambda>region. expandRange region SPEECH_PADDING_SEC (videoDurationSec input))
          (speechRegions (analysis input)))"


section \<open>Example inputs\<close>

text \<open>The analysis used by the repository's decision tests (tests/decision.test.ts).\<close>

definition baseAnalysis :: AnalysisResult where
  "baseAnalysis =
     \<lparr>speechRegions = [],
      silenceRegions = [\<lparr>startSec = 6, endSec = 10\<rparr>],
      sceneCutsSec = [0, 3, 6, 10],
      lowInfoRegions = [\<lparr>startSec = 6, endSec = 10, score = 0.9\<rparr>],
      warnings = []\<rparr>"

definition speech :: "real \<Rightarrow> real \<Rightarrow> SpeechRegion" where
  "speech s e = \<lparr>startSec = s, endSec = e, speech_text = ''spoken'', speech_confidence = Some 0.9\<rparr>"

definition decisionInput :: "real \<Rightarrow> real \<Rightarrow> SpeechRegion list \<Rightarrow> bool \<Rightarrow> DecisionInput" where
  "decisionInput v t regions hasAudio =
     \<lparr>videoDurationSec = v, targetDurationSec = t,
      analysis = baseAnalysis\<lparr>speechRegions := regions\<rparr>,
      hasReplacementAudio = hasAudio\<rparr>"


definition exampleOptions :: "TimeRange \<Rightarrow> RenderOptions" where
  "exampleOptions keep =
     \<lparr>opt_videoPath = ''uploads/job-1/video.mp4'',
      opt_replacementAudioPath = Some ''uploads/job-1/replacement-audio.wav'',
      opt_keepRange = keep,
      opt_videoDurationSec = 10, opt_targetDurationSec = 8,
      opt_outputPath = ''outputs/job-1.mp4''\<rparr>"

text \<open>A world in which the encoder exits with status 0, writes its output, and the
  output is probed at the given duration.\<close>

definition encoderSucceeds :: "real \<Rightarrow> RenderWorld" where
  "encoderSucceeds probed =
     \<lparr>runEncoder = (\<lambda>args. Inr 0), existsSync = (\<lambda>path. True),
      probeDurationSeconds = (\<lambda>path. Inr probed)\<rparr>"





section \<open>Properties of the range algebra\<close>

lemma mergeLoop_append: "mergeLoop merged current xs = merged @ mergeLoop [] current xs"
proof (induction xs arbitrary: merged current)
  case Nil
  show ?case by simp
next
  case (Cons c rest)
  show ?case
  proof (cases "startSec c \<le> endSec current")
    case True
    then show ?thesis using Cons.IH[of merged] Cons.IH[of "[]"] by simp
  next
    case False
    then show ?thesis using Cons.IH[of "merged @ [current]" c] Cons.IH[of "[current]" c] by simp
  qed
qed

lemma mergeLoop_inv:
  assumes "startSec current < endSec current"
    and "\<forall>x\<in>set xs. startSec x < endSec x"
    and "sorted (map startSec xs)"
    and "\<forall>x\<in>set xs. startSec current \<le> startSec x"
  shows "sorted_wrt (\<lambda>a b. endSec a < startSec b) (mergeLoop [] current xs)
       \<and> (\<forall>y\<in>set (mergeLoop [] current xs). startSec current \<le> startSec y \<and> startSec y < endSec y)"
  using assms
proof (induction xs arbitrary: current)
  case Nil
  then show ?case by simp
next
  case (Cons c rest)
  show ?case
  proof (cases "startSec c \<le> endSec current")
    case True
    let ?cur = "\<lparr>startSec = startSec current, endSec = max (endSec current) (endSec c)\<rparr>"
    have "sorted_wrt (\<lambda>a b. endSec a < startSec b) (mergeLoop [] ?cur rest)
       \<and> (\<forall>y\<in>set (mergeLoop [] ?cur rest). startSec ?cur \<le> startSec y \<and> startSec y < endSec y)"
      by (rule Cons.IH) (use Cons.prems in auto)
    then show ?thesis using True by simp
  next
    case False
    have ih: "sorted_wrt (\<lambda>a b. endSec a < startSec b) (mergeLoop [] c rest)
       \<and> (\<forall>y\<in>set (mergeLoop [] c rest). startSec c \<le> startSec y \<and> startSec y < endSec y)"
      by (rule Cons.IH) (use Cons.prems in auto)
    have eq: "mergeLoop [] current (c # rest) = current # mergeLoop [] c rest"
      using False mergeLoop_append[of "[current]" c rest] by simp
    show ?thesis unfolding eq using ih False Cons.prems(1,4) by fastforce
  qed
qed

lemma mergeLoop_fixed:
  assumes "sorted_wrt (\<lambda>a b. endSec a < startSec b) (current # xs)"
    and "\<forall>x\<in>set (current # xs). startSec x < endSec x"
  shows "mergeLoop [] current xs = current # xs"
  using assms
proof (induction xs arbitrary: current)
  case Nil
  then show ?case by simp
next
  case (Cons c rest)
  have "\<not> startSec c \<le> endSec current" using Cons.prems(1) by simp
  moreover have "mergeLoop [] c rest = c # rest"
    by (rule Cons.IH) (use Cons.prems in auto)
  ultimately show ?case using mergeLoop_append[of "[current]" c rest] by simp
qed

lemma mergeLoop_length:
  "sum_list (map rangeLength (mergeLoop [] current xs))
     \<le> rangeLength current + sum_list (map rangeLength xs)"
proof (induction xs arbitrary: current)
  case Nil
  show ?case by simp
next
  case (Cons c rest)
  show ?case
  proof (cases "startSec c \<le> endSec current")
    case True
    let ?cur = "\<lparr>startSec = startSec current, endSec = max (endSec current) (endSec c)\<rparr>"
    have "rangeLength ?cur \<le> rangeLength current + rangeLength c"
      using True by (simp add: rangeLength_def max_def)
    with Cons.IH[of ?cur] show ?thesis using True by simp
  next
    case False
    then show ?thesis using mergeLoop_append[of "[current]" c rest] Cons.IH[of c] by simp
  qed
qed

lemma mergeRanges_separated:
  "sorted_wrt (\<lambda>a b. endSec a < startSec b) (mergeRanges rs)
     \<and> (\<forall>y\<in>set (mergeRanges rs). startSec y < endSec y)"
proof (cases "filter (\<lambda>r. endSec r > startSec r) (sort_key startSec (map normalizeRange rs))")
  case Nil
  then show ?thesis by (simp add: mergeRanges_def)
next
  case (Cons c rest)
  let ?fs = "filter (\<lambda>r. endSec r > startSec r) (sort_key startSec (map normalizeRange rs))"
  have srt: "sorted (map startSec (c # rest))"
    using sorted_filter[of startSec "sort_key startSec (map normalizeRange rs)"] Cons
    by (metis sorted_sort_key)
  have nd: "\<forall>x\<in>set (c # rest). startSec x < endSec x"
  proof
    fix x assume "x \<in> set (c # rest)"
    then have "x \<in> set ?fs" using Cons by simp
    then show "startSec x < endSec x" by simp
  qed
  have "sorted_wrt (\<lambda>a b. endSec a < startSec b) (mergeLoop [] c rest)
       \<and> (\<forall>y\<in>set (mergeLoop [] c rest). startSec c \<le> startSec y \<and> startSec y < endSec y)"
    by (rule mergeLoop_inv) (use srt nd in auto)
  moreover have "mergeRanges rs = mergeLoop [] c rest"
    using Cons by (auto simp: mergeRanges_def)
  ultimately show ?thesis by simp
qed

lemma separated_sorted_start:
  assumes "sorted_wrt (\<lambda>a b. endSec a < startSec b) xs"
    and "\<forall>y\<in>set xs. startSec y < endSec y"
  shows "sorted (map startSec xs)"
  using assms
proof (induction xs)
  case Nil
  show ?case by simp
next
  case (Cons a xs)
  have "\<forall>x\<in>set xs. startSec a \<le> startSec x"
  proof
    fix x assume x: "x \<in> set xs"
    have "startSec a < endSec a" using Cons.prems(2) by simp
    moreover have "endSec a < startSec x" using Cons.prems(1) x by simp
    ultimately show "startSec a \<le> startSec x" by simp
  qed
  moreover have "sorted (map startSec xs)"
    by (rule Cons.IH) (use Cons.prems in auto)
  ultimately show ?case by simp
qed

lemma separated_disjoint:
  assumes "sorted_wrt (\<lambda>a b. endSec a < startSec b) xs"
  shows "sorted_wrt (\<lambda>a b. \<not> overlaps a b \<and> \<not> overlaps b a) xs"
  using assms
  by (rule sorted_wrt_mono_rel[rotated]) (auto simp: overlaps_def)

lemma mergeRanges_fixed:
  assumes "sorted_wrt (\<lambda>a b. endSec a < startSec b) xs"
    and "\<forall>y\<in>set xs. startSec y < endSec y"
  shows "mergeRanges xs = xs"
proof (cases xs)
  case Nil
  then show ?thesis by (simp add: mergeRanges_def)
next
  case (Cons c rest)
  have n: "map normalizeRange xs = xs"
    by (rule map_idI) (use assms(2) in \<open>auto simp: normalizeRange_def\<close>)
  have s: "sort_key startSec xs = xs"
    using separated_sorted_start[OF assms] by (rule sort_key_id_if_sorted)
  have f: "filter (\<lambda>r. endSec r > startSec r) xs = xs"
    using assms(2) by simp
  have "mergeLoop [] c rest = c # rest"
    by (rule mergeLoop_fixed) (use assms Cons in auto)
  then show ?thesis using Cons n s f by (simp add: mergeRanges_def)
qed

lemma rangeLength_nonneg: "0 \<le> rangeLength r"
  by (simp add: rangeLength_def)

lemma sum_filter_le:
  "sum_list (map rangeLength (filter P xs)) \<le> sum_list (map rangeLength (xs :: TimeRange list))"
  by (induction xs) (auto simp: rangeLength_nonneg add_increasing)

lemma sum_sort_key:
  "sum_list (map rangeLength (sort_key startSec xs)) = sum_list (map rangeLength (xs :: TimeRange list))"
proof (induction xs)
  case Nil
  show ?case by simp
next
  case (Cons x xs)
  have "sum_list (map rangeLength (insort_key startSec x ys)) = rangeLength x + sum_list (map rangeLength ys)"
    for ys :: "TimeRange list"
    by (induction ys) auto
  then show ?case using Cons.IH by simp
qed

lemma mergeRanges_length:
  "sum_list (map rangeLength (mergeRanges rs))
     \<le> sum_list (map rangeLength (map normalizeRange rs))"
proof (cases "filter (\<lambda>r. endSec r > startSec r) (sort_key startSec (map normalizeRange rs))")
  case Nil
  have "0 \<le> sum_list (map rangeLength (map normalizeRange rs))"
    by (rule sum_list_nonneg) (auto simp: rangeLength_nonneg)
  with Nil show ?thesis by (simp add: mergeRanges_def)
next
  case (Cons c rest)
  have "mergeRanges rs = mergeLoop [] c rest"
    using Cons by (auto simp: mergeRanges_def)
  then have "sum_list (map rangeLength (mergeRanges rs))
      \<le> sum_list (map rangeLength (c # rest))"
    using mergeLoop_length[of c rest] by simp
  also have "\<dots> \<le> sum_list (map rangeLength (sort_key startSec (map normalizeRange rs)))"
    using sum_filter_le[of "\<lambda>r. endSec r > startSec r" "sort_key startSec (map normalizeRange rs)"] Cons
    by simp
  also have "\<dots> = sum_list (map rangeLength (map normalizeRange rs))"
    by (rule sum_sort_key)
  finally show ?thesis .
qed

lemma containsRange_trans:
  "containsRange a b \<Longrightarrow> containsRange b c \<Longrightarrow> containsRange a c"
  by (auto simp: containsRange_def)

lemma mergeLoop_covers:
  assumes "sorted (map startSec xs)"
    and "\<forall>x\<in>set xs. startSec current \<le> startSec x"
  shows "\<forall>x\<in>set (current # xs). \<exists>m\<in>set (mergeLoop [] current xs). containsRange m x"
  using assms
proof (induction xs arbitrary: current)
  case Nil
  show ?case by (simp add: containsRange_def)
next
  case (Cons c rest)
  show ?case
  proof (cases "startSec c \<le> endSec current")
    case True
    let ?cur = "\<lparr>startSec = startSec current, endSec = max (endSec current) (endSec c)\<rparr>"
    have ih: "\<forall>x\<in>set (?cur # rest). \<exists>m\<in>set (mergeLoop [] ?cur rest). containsRange m x"
      by (rule Cons.IH) (use Cons.prems in auto)
    then obtain m where m: "m \<in> set (mergeLoop [] ?cur rest)" "containsRange m ?cur"
      by auto
    have "containsRange ?cur current" by (simp add: containsRange_def)
    moreover have "containsRange ?cur c" using Cons.prems(2) by (simp add: containsRange_def)
    ultimately have "containsRange m current" "containsRange m c"
      using m(2) containsRange_trans by blast+
    then show ?thesis using True m(1) ih by auto
  next
    case False
    have ih: "\<forall>x\<in>set (c # rest). \<exists>m\<in>set (mergeLoop [] c rest). containsRange m x"
      by (rule Cons.IH) (use Cons.prems in auto)
    have eq: "mergeLoop [] current (c # rest) = current # mergeLoop [] c rest"
      using False mergeLoop_append[of "[current]" c rest] by simp
    have "containsRange current current" by (simp add: containsRange_def)
    then show ?thesis unfolding eq using ih by auto
  qed
qed

lemma mergeRanges_covers:
  assumes "r \<in> set rs" and "startSec r \<noteq> endSec r"
  shows "\<exists>m\<in>set (mergeRanges rs). containsRange m (normalizeRange r)"
proof -
  let ?fs = "filter (\<lambda>r. endSec r > startSec r) (sort_key startSec (map normalizeRange rs))"
  have mem: "normalizeRange r \<in> set ?fs"
    using assms by (auto simp: normalizeRange_def)
  then obtain c rest where fs: "?fs = c # rest" by (cases ?fs) auto
  have srt: "sorted (map startSec (c # rest))"
    using sorted_filter[of startSec "sort_key startSec (map normalizeRange rs)"] fs
    by (metis sorted_sort_key)
  have cov: "\<forall>x\<in>set (c # rest). \<exists>m\<in>set (mergeLoop [] c rest). containsRange m x"
    by (rule mergeLoop_covers) (use srt in auto)
  have eq: "mergeRanges rs = mergeLoop [] c rest"
    using fs assms(1) by (auto simp: mergeRanges_def)
  have "normalizeRange r \<in> set (c # rest)" using mem fs by simp
  with cov show ?thesis unfolding eq by blast
qed

lemma intersectionLength_degenerate:
  "endSec r \<le> startSec r \<Longrightarrow> intersectionLength r p \<le> 0"
  by (auto simp: intersectionLength_def overlaps_def)

lemma totalOverlapLength_degenerate:
  assumes "endSec r \<le> startSec r"
  shows "totalOverlapLength r ps \<le> 0"
proof -
  have "foldl (\<lambda>sum p. sum + intersectionLength r p) acc ps \<le> acc" for acc
  proof (induction ps arbitrary: acc)
    case Nil
    show ?case by simp
  next
    case (Cons p ps)
    have "foldl (\<lambda>sum p. sum + intersectionLength r p) (acc + intersectionLength r p) ps
            \<le> acc + intersectionLength r p"
      by (rule Cons.IH)
    then show ?case using intersectionLength_degenerate[OF assms, of p] by simp
  qed
  then show ?thesis by (simp add: totalOverlapLength_def)
qed

subsection \<open>Merging: sorted, disjoint, bounded, idempotent\<close>

text \<open>
  C9, in the form the code satisfies. For every list of time ranges, the result of
  \<^verbatim>\<open>mergeRanges\<close> is sorted by start and pairwise non-overlapping, its total length is at
  most the sum of the lengths of the normalised input ranges, and merging the result
  again returns it unchanged.
\<close>

theorem mergeRanges_sorted_disjoint_idempotent:
  "sorted (map startSec (mergeRanges rs))
   \<and> sorted_wrt (\<lambda>a b. \<not> overlaps a b \<and> \<not> overlaps b a) (mergeRanges rs)
   \<and> sum_list (map rangeLength (mergeRanges rs))
        \<le> sum_list (map rangeLength (map normalizeRange rs))
   \<and> mergeRanges (mergeRanges rs) = mergeRanges rs"
  using mergeRanges_separated[of rs] separated_sorted_start[of "mergeRanges rs"]
    separated_disjoint[of "mergeRanges rs"] mergeRanges_length[of rs]
    mergeRanges_fixed[of "mergeRanges rs"]
  by blast

text \<open>
  With the lengths of the input ranges as they are given, the bound of C9 fails on a
  reversed range: \<^verbatim>\<open>mergeRanges\<close> normalises \<open>{5, 2}\<close> to \<open>{2, 5}\<close> of length 3, while
  \<^verbatim>\<open>rangeLength\<close> of \<open>{5, 2}\<close> is 0.
\<close>

theorem mergeRanges_length_counterexample:
  "\<not> sum_list (map rangeLength (mergeRanges [\<lparr>startSec = 5, endSec = 2\<rparr>]))
       \<le> sum_list (map rangeLength [\<lparr>startSec = 5, endSec = 2\<rparr>])"
  by (simp add: mergeRanges_def normalizeRange_def rangeLength_def)

section \<open>Properties of the decision engine\<close>

lemma accept_iff:
  "acceptable p v c \<longleftrightarrow>
     \<not> overlapWithRanges (cand_trimRanges c) p > OVERLAP_TOLERANCE_SEC
     \<and> withinDuration (cand_keepRange c) v"
  by (auto simp: acceptable_def)

lemma candidateLoop_reject:
  "\<not> acceptable p (videoDurationSec input) c \<Longrightarrow>
     candidateLoop input p (c # rest) = candidateLoop input p rest"
  by (auto simp: accept_iff Let_def)

lemma candidateLoop_accept:
  "acceptable p (videoDurationSec input) c \<Longrightarrow>
     \<exists>d. candidateLoop input p (c # rest) = Some d
        \<and> keepRange d = cand_keepRange c \<and> strategy d = cand_strategy c
        \<and> protectedRanges d = p
        \<and> trimNeededSec d = max 0 (videoDurationSec input - targetDurationSec input)"
  by (auto simp: accept_iff Let_def)

lemma candidateLoop_None:
  "candidateLoop input p cs = None \<longleftrightarrow> (\<forall>c\<in>set cs. \<not> acceptable p (videoDurationSec input) c)"
proof (induction cs)
  case Nil
  show ?case by simp
next
  case (Cons c cs)
  show ?case
  proof (cases "acceptable p (videoDurationSec input) c")
    case True
    then show ?thesis using candidateLoop_accept[OF True, of cs] by auto
  next
    case False
    then show ?thesis using candidateLoop_reject[OF False, of cs] Cons.IH by simp
  qed
qed


lemma candidateLoop_protected:
  "candidateLoop input p cs = Some d \<Longrightarrow> protectedRanges d = p"
proof (induction cs)
  case Nil
  then show ?case by simp
next
  case (Cons x cs)
  show ?case
  proof (cases "acceptable p (videoDurationSec input) x")
    case True
    then show ?thesis using candidateLoop_accept[OF True, of cs] Cons.prems by auto
  next
    case False
    then show ?thesis using Cons candidateLoop_reject[OF False, of cs] by simp
  qed
qed

lemma computeTrimDecision_unfold:
  assumes "\<not> videoDurationSec input - targetDurationSec input < - 0.01"
  shows "computeTrimDecision input =
     (case candidateLoop input (protectedOf input)
             (buildCandidates (videoDurationSec input) (targetDurationSec input)
                (hasReplacementAudio input)) of
        Some decision \<Rightarrow> Inr decision
      | None \<Rightarrow>
          if hasReplacementAudio input then Inl (AppError NO_SYNC_SAFE_CUT)
          else
            let fallback = fallbackCandidate (videoDurationSec input) (targetDurationSec input)
                             (analysis input)
            in Inr \<lparr>keepRange = cand_keepRange fallback,
                    trimNeededSec = max 0 (videoDurationSec input - targetDurationSec input),
                    strategy = cand_strategy fallback,
                    confidence =
                      min 1 (max 0.4 (0.62 - overlapWithRanges (cand_trimRanges fallback)
                                                (protectedOf input)
                                              / max 1 (videoDurationSec input
                                                       - targetDurationSec input))),
                    protectedRanges = protectedOf input\<rparr>)"
  unfolding computeTrimDecision_def protectedOf_def Let_def using assms by simp

lemma computeTrimDecision_protected:
  assumes "computeTrimDecision input = Inr d"
  shows "protectedRanges d = protectedOf input"
proof -
  have ok: "\<not> videoDurationSec input - targetDurationSec input < - 0.01"
    using assms by (auto simp: computeTrimDecision_def Let_def split: if_splits)
  show ?thesis
    using assms computeTrimDecision_unfold[OF ok] candidateLoop_protected
    by (auto simp: Let_def split: option.splits if_splits)
qed





text \<open>Evaluation of the engine on the example inputs.\<close>

lemmas engine_eval =
  decisionInput_def baseAnalysis_def speech_def protectedOf_def mergeRanges_def
  normalizeRange_def expandRange_def SPEECH_PADDING_SEC_def OVERLAP_TOLERANCE_SEC_def
  buildCandidates_def hasInvalidRange_def acceptable_def overlapWithRanges_def
  totalOverlapLength_def intersectionLength_def overlaps_def withinDuration_def
  lowInfoContact_def Let_def





lemma intro_decision:
  "computeTrimDecision (decisionInput 10 8 [speech 8.2 9.8] False)
     = Inr \<lparr>keepRange = \<lparr>startSec = 2, endSec = 10\<rparr>, trimNeededSec = 2,
            strategy = Intro, confidence = 0.78,
            protectedRanges = [\<lparr>startSec = 7.85, endSec = 10\<rparr>]\<rparr>"
  by (simp add: computeTrimDecision_def engine_eval silenceCoverage_def rangeLength_def)

subsection \<open>The low-density fallback\<close>




subsection \<open>The ordered search over candidates\<close>




subsection \<open>Replacement audio without a safe tail cut\<close>

text \<open>
  C3. For every input with replacement audio whose outro trim (from the target duration,
  or 0 if that is negative, to the end of the video) overlaps the merged protected speech
  ranges by more than the 0.02 s tolerance, \<^verbatim>\<open>computeTrimDecision\<close> throws
  \<^verbatim>\<open>NO_SYNC_SAFE_CUT\<close>.
\<close>

theorem replacement_audio_unsafe_outro_throws:
  assumes "hasReplacementAudio input"
    and "overlapWithRanges
           [\<lparr>startSec = max 0 (targetDurationSec input), endSec = videoDurationSec input\<rparr>]
           (protectedOf input) > OVERLAP_TOLERANCE_SEC"
  shows "computeTrimDecision input = Inl (AppError NO_SYNC_SAFE_CUT)"
proof -
  let ?v = "videoDurationSec input" and ?t = "targetDurationSec input"
  let ?trim = "\<lparr>startSec = max 0 ?t, endSec = ?v\<rparr>"
  have pos: "0 < totalOverlapLength ?trim (protectedOf input)"
    using assms(2) by (simp add: overlapWithRanges_def OVERLAP_TOLERANCE_SEC_def)
  have nd: "startSec ?trim < endSec ?trim"
    using pos totalOverlapLength_degenerate[of ?trim "protectedOf input"] by fastforce
  then have tv: "?t < ?v" by (simp add: max_def split: if_splits)
  have "c \<in> set (buildCandidates ?v ?t True) \<Longrightarrow> cand_trimRanges c = [?trim]" for c
    using tv by (auto simp: buildCandidates_def Let_def hasInvalidRange_def split: if_splits)
  then have "\<forall>c\<in>set (buildCandidates ?v ?t True). \<not> acceptable (protectedOf input) ?v c"
    using assms(2) by (simp add: acceptable_def)
  then have "candidateLoop input (protectedOf input) (buildCandidates ?v ?t True) = None"
    by (simp add: candidateLoop_None)
  moreover have "\<not> ?v - ?t < - 0.01" using tv by simp
  ultimately show ?thesis
    using assms(1) computeTrimDecision_unfold[of input] by simp
qed

text \<open>The repository's test: a 10 s video, an 8 s target and speech from 7.4 s to 10 s.\<close>

theorem replacement_audio_unsafe_outro_throws_witness:
  "hasReplacementAudio (decisionInput 10 8 [speech 7.4 10] True)
   \<and> overlapWithRanges [\<lparr>startSec = max 0 8, endSec = 10\<rparr>]
        (protectedOf (decisionInput 10 8 [speech 7.4 10] True)) > OVERLAP_TOLERANCE_SEC
   \<and> computeTrimDecision (decisionInput 10 8 [speech 7.4 10] True)
       = Inl (AppError NO_SYNC_SAFE_CUT)"
proof -
  let ?i = "decisionInput 10 8 [speech 7.4 10] True"
  have h1: "hasReplacementAudio ?i" by (simp add: decisionInput_def)
  have h2: "overlapWithRanges [\<lparr>startSec = max 0 8, endSec = 10\<rparr>] (protectedOf ?i)
              > OVERLAP_TOLERANCE_SEC"
    by (simp add: engine_eval)
  have v: "videoDurationSec ?i = 10" "targetDurationSec ?i = 8"
    by (simp_all add: decisionInput_def)
  from replacement_audio_unsafe_outro_throws[of ?i] h1 h2 v
  show ?thesis by simp
qed

subsection \<open>Protected ranges of a decision\<close>

text \<open>
  C8, in the form the code satisfies. The \<^verbatim>\<open>protectedRanges\<close> of every decision that
  \<^verbatim>\<open>computeTrimDecision\<close> returns are the speech regions expanded by 0.35 s on each side,
  clamped by \<^verbatim>\<open>expandRange\<close> and merged. They are sorted by start and pairwise
  non-overlapping, and every expanded speech region of positive length is contained in
  one of them.
\<close>

theorem protectedRanges_merged_padded_speech:
  assumes "computeTrimDecision input = Inr d"
  shows "protectedRanges d =
           mergeRanges
             (map (\<lambda>region. expandRange region 0.35 (videoDurationSec input))
                (speechRegions (analysis input)))
    \<and> sorted (map startSec (protectedRanges d))
    \<and> sorted_wrt (\<lambda>a b. \<not> overlaps a b \<and> \<not> overlaps b a) (protectedRanges d)
    \<and> (\<forall>region\<in>set (speechRegions (analysis input)).
           startSec (expandRange region 0.35 (videoDurationSec input))
             < endSec (expandRange region 0.35 (videoDurationSec input))
           \<longrightarrow> (\<exists>m\<in>set (protectedRanges d).
                  containsRange m (expandRange region 0.35 (videoDurationSec input))))"
proof (intro conjI)
  let ?ex = "\<lambda>region::SpeechRegion. expandRange region 0.35 (videoDurationSec input)"
  have p: "protectedRanges d = mergeRanges (map ?ex (speechRegions (analysis input)))"
    using computeTrimDecision_protected[OF assms]
    by (simp add: protectedOf_def SPEECH_PADDING_SEC_def)
  show "protectedRanges d = mergeRanges (map ?ex (speechRegions (analysis input)))"
    by (rule p)
  show "sorted (map startSec (protectedRanges d))"
    unfolding p using mergeRanges_separated separated_sorted_start by blast
  show "sorted_wrt (\<lambda>a b. \<not> overlaps a b \<and> \<not> overlaps b a) (protectedRanges d)"
    unfolding p using mergeRanges_separated separated_disjoint by blast
  show "\<forall>region\<in>set (speechRegions (analysis input)).
           startSec (?ex region) < endSec (?ex region)
           \<longrightarrow> (\<exists>m\<in>set (protectedRanges d). containsRange m (?ex region))"
  proof (intro ballI impI)
    fix region
    assume mem: "region \<in> set (speechRegions (analysis input))"
      and pos: "startSec (?ex region) < endSec (?ex region)"
    have "?ex region \<in> set (map ?ex (speechRegions (analysis input)))"
      using mem by simp
    moreover have "startSec (?ex region) \<noteq> endSec (?ex region)"
      using pos by simp
    ultimately have "\<exists>m\<in>set (mergeRanges (map ?ex (speechRegions (analysis input)))).
                       containsRange m (normalizeRange (?ex region))"
      by (rule mergeRanges_covers)
    moreover have "normalizeRange (?ex region) = ?ex region"
      using pos by (simp add: normalizeRange_def)
    ultimately show "\<exists>m\<in>set (protectedRanges d). containsRange m (?ex region)"
      unfolding p by simp
  qed
qed

text \<open>Speech from 8.2 s to 9.8 s of a 10 s video is protected as \<open>{7.85, 10}\<close>.\<close>

theorem protectedRanges_merged_padded_speech_witness:
  "computeTrimDecision (decisionInput 10 8 [speech 8.2 9.8] False)
     = Inr \<lparr>keepRange = \<lparr>startSec = 2, endSec = 10\<rparr>, trimNeededSec = 2,
            strategy = Intro, confidence = 0.78,
            protectedRanges = [\<lparr>startSec = 7.85, endSec = 10\<rparr>]\<rparr>
   \<and> startSec (expandRange (speech 8.2 9.8) 0.35 10)
       < endSec (expandRange (speech 8.2 9.8) 0.35 10)
   \<and> containsRange \<lparr>startSec = 7.85, endSec = 10\<rparr> (expandRange (speech 8.2 9.8) 0.35 10)"
  using protectedRanges_merged_padded_speech[OF intro_decision] intro_decision
  by (simp add: decisionInput_def baseAnalysis_def expandRange_def speech_def)

text \<open>
  C8 in the spec's wording has every expanded speech region contained in a returned
  range. A speech region from 10.35 s to 11 s of a 10 s video expands to the empty range
  \<open>{10, 10}\<close>, which \<^verbatim>\<open>mergeRanges\<close> drops: the decision has no protected range at all.
\<close>

theorem degenerate_expansion_counterexample:
  "speechRegions (analysis (decisionInput 10 8 [speech 10.35 11] False)) = [speech 10.35 11]
   \<and> expandRange (speech 10.35 11) SPEECH_PADDING_SEC 10 = \<lparr>startSec = 10, endSec = 10\<rparr>
   \<and> computeTrimDecision (decisionInput 10 8 [speech 10.35 11] False)
       = Inr \<lparr>keepRange = \<lparr>startSec = 0, endSec = 8\<rparr>, trimNeededSec = 2,
              strategy = Outro, confidence = 0.98, protectedRanges = []\<rparr>"
  by (simp add: computeTrimDecision_def engine_eval silenceCoverage_def rangeLength_def)

section \<open>Properties of the override validator and the renderer\<close>






text \<open>
  C6. Whenever \<^verbatim>\<open>renderVideo\<close> has run the encoder, the encoder exited with status 0 and the
  output file exists, a probed output duration more than 0.25 s away from the target
  makes it throw \<^verbatim>\<open>RENDER_FAILED\<close>; and whenever it returns a result, the duration in the
  result is the probed one and lies within 0.25 s of the target.
\<close>

theorem render_output_outside_tolerance_fails:
  "(snd (renderVideo world options) = [args] \<and> runEncoder world args = Inr 0
      \<and> existsSync world (opt_outputPath options)
      \<and> probeDurationSeconds world (opt_outputPath options) = Inr d
      \<and> \<bar>d - opt_targetDurationSec options\<bar> > 0.25
     \<longrightarrow> fst (renderVideo world options) = Inl (AppError RENDER_FAILED))
   \<and> (fst (renderVideo world options) = Inr result
     \<longrightarrow> probeDurationSeconds world (opt_outputPath options) = Inr (durationSec result)
         \<and> \<bar>durationSec result - opt_targetDurationSec options\<bar> \<le> 0.25)"
  by (auto simp: renderVideo_def Let_def split: if_splits sum.splits)

text \<open>
  A tail-only render to an 8 s target: an output probed at 9 s fails, one probed at 8.1 s
  is returned.
\<close>

theorem render_output_outside_tolerance_fails_witness:
  "snd (renderVideo (encoderSucceeds 9) (exampleOptions \<lparr>startSec = 0, endSec = 8\<rparr>))
      = [StreamCopyWithReplacement ''uploads/job-1/video.mp4''
           ''uploads/job-1/replacement-audio.wav'' 8 ''outputs/job-1.mp4'']
   \<and> \<bar>9 - opt_targetDurationSec (exampleOptions \<lparr>startSec = 0, endSec = 8\<rparr>)\<bar> > 0.25
   \<and> fst (renderVideo (encoderSucceeds 9) (exampleOptions \<lparr>startSec = 0, endSec = 8\<rparr>))
      = Inl (AppError RENDER_FAILED)
   \<and> fst (renderVideo (encoderSucceeds 8.1) (exampleOptions \<lparr>startSec = 0, endSec = 8\<rparr>))
      = Inr \<lparr>outputPath = ''outputs/job-1.mp4'', durationSec = 8.1\<rparr>
   \<and> \<bar>8.1 - opt_targetDurationSec (exampleOptions \<lparr>startSec = 0, endSec = 8\<rparr>)\<bar> \<le> 0.25"
proof -
  let ?o = "exampleOptions \<lparr>startSec = 0, endSec = 8\<rparr>"
  let ?args = "StreamCopyWithReplacement ''uploads/job-1/video.mp4''
           ''uploads/job-1/replacement-audio.wav'' 8 ''outputs/job-1.mp4''"
  have run9: "snd (renderVideo (encoderSucceeds 9) ?o) = [?args]"
    by (simp add: renderVideo_def encoderSucceeds_def exampleOptions_def encoderArgs_def
        shouldUseStreamCopy_def shouldUseStreamCopyWithReplacement_def truthy_def Let_def)
  have ok: "fst (renderVideo (encoderSucceeds 8.1) ?o)
      = Inr \<lparr>outputPath = ''outputs/job-1.mp4'', durationSec = 8.1\<rparr>"
    by (simp add: renderVideo_def encoderSucceeds_def exampleOptions_def encoderArgs_def
        shouldUseStreamCopy_def shouldUseStreamCopyWithReplacement_def truthy_def Let_def)
  have far: "\<bar>9 - opt_targetDurationSec ?o\<bar> > 0.25"
    by (simp add: exampleOptions_def)
  have "fst (renderVideo (encoderSucceeds 9) ?o) = Inl (AppError RENDER_FAILED)"
    using render_output_outside_tolerance_fails[of "encoderSucceeds 9" ?o ?args 9] run9 far
    by (simp add: encoderSucceeds_def)
  moreover have "\<bar>8.1 - opt_targetDurationSec ?o\<bar> \<le> 0.25"
    using render_output_outside_tolerance_fails[of "encoderSucceeds 8.1" ?o ?args 9
        "\<lparr>outputPath = ''outputs/job-1.mp4'', durationSec = 8.1\<rparr>"] ok
    by simp
  ultimately show ?thesis using run9 far ok by blast
qed

section \<open>Properties of job creation\<close>





end
